theory Spec2Isabelle
  imports Complex_Main
begin

section \<open>JavaScript numbers\<close>

text \<open>
  The source computes on JavaScript numbers, which are IEEE 754 doubles. A number is
  modelled as the real that a finite double denotes, one of the two infinities, or NaN.
  The operators \<open>+\<close>, \<open>-\<close>, \<open>*\<close> and \<open>/\<close> return the exact result rounded to the nearest
  double, ties to the even significand, and an infinity where the rounded result is out of
  range. The special values follow ECMAScript: they arise from overflow, from division by
  zero, from \<open>Math.log\<close> at an argument that is not positive and from \<open>Math.pow\<close>, and they
  propagate through every operator as JavaScript has it.

  Zero is unsigned and stands for \<open>+0\<close>: a divisor of \<open>mortgage.js\<close> that is zero is either a
  payment, which is \<open>+0\<close> unless the caller passes \<open>-0\<close>, or a difference \<open>x - x\<close>, which
  IEEE arithmetic rounds to \<open>+0\<close>, or the logarithm of 1, which is \<open>+0\<close>.
\<close>

datatype number = Fin real | PInf | NInf | NaN

text \<open>Unary minus.\<close>

fun js_neg :: "number \<Rightarrow> number" where
  "js_neg (Fin a) = Fin (- a)"
| "js_neg PInf = NInf"
| "js_neg NInf = PInf"
| "js_neg NaN = NaN"

text \<open>The infinity with the sign of a real that is not zero.\<close>

definition signed_inf :: "real \<Rightarrow> number" where
  "signed_inf a = (if 0 < a then PInf else NInf)"

subsection \<open>Rounding to a double\<close>

text \<open>The integer nearest to a real, the even one of the two when it is half way.\<close>

definition round_even :: "real \<Rightarrow> int" where
  "round_even y =
     (let f = \<lfloor>y\<rfloor>
      in if y - of_int f < 1 / 2 then f
         else if 1 / 2 < y - of_int f then f + 1
         else if even f then f else f + 1)"

text \<open>
  The exponent of the unit in the last place of the doubles around a real: a double has
  a significand of 53 bits, and the least exponent of that unit is \<open>-1074\<close>, in the
  subnormal range.
\<close>

definition ulp_exp :: "real \<Rightarrow> int" where
  "ulp_exp x = (if x = 0 then - 1074 else max (\<lfloor>log 2 \<bar>x\<bar>\<rfloor> - 52) (- 1074))"

text \<open>A real rounded to the nearest multiple of that unit.\<close>

definition round_real :: "real \<Rightarrow> real" where
  "round_real x = of_int (round_even (x / 2 powi ulp_exp x)) * 2 powi ulp_exp x"

text \<open>
  The double that is the result of an operation whose exact result is the real \<open>x\<close>: the
  nearest double, or an infinity when that nearest value is \<open>2 ^ 1024\<close> or beyond.
\<close>

definition round_double :: "real \<Rightarrow> number" where
  "round_double x = (if 2 ^ 1024 \<le> \<bar>round_real x\<bar> then signed_inf x else Fin (round_real x))"

text \<open>A real that is a double.\<close>

definition is_double :: "real \<Rightarrow> bool" where
  "is_double x = (round_double x = Fin x)"

subsection \<open>Operators\<close>

text \<open>\<open>a + b\<close>.\<close>

fun js_add :: "number \<Rightarrow> number \<Rightarrow> number" where
  "js_add (Fin a) (Fin b) = round_double (a + b)"
| "js_add NaN _ = NaN"
| "js_add _ NaN = NaN"
| "js_add PInf NInf = NaN"
| "js_add NInf PInf = NaN"
| "js_add PInf _ = PInf"
| "js_add _ PInf = PInf"
| "js_add NInf _ = NInf"
| "js_add _ NInf = NInf"

text \<open>\<open>a - b\<close>, which IEEE arithmetic computes as \<open>a + (-b)\<close>.\<close>

definition js_sub :: "number \<Rightarrow> number \<Rightarrow> number" where
  "js_sub a b = js_add a (js_neg b)"

text \<open>\<open>a * b\<close>: an infinity times zero is NaN.\<close>

fun js_mul :: "number \<Rightarrow> number \<Rightarrow> number" where
  "js_mul (Fin a) (Fin b) = round_double (a * b)"
| "js_mul NaN _ = NaN"
| "js_mul _ NaN = NaN"
| "js_mul (Fin a) PInf = (if a = 0 then NaN else signed_inf a)"
| "js_mul (Fin a) NInf = (if a = 0 then NaN else signed_inf (- a))"
| "js_mul PInf (Fin b) = (if b = 0 then NaN else signed_inf b)"
| "js_mul NInf (Fin b) = (if b = 0 then NaN else signed_inf (- b))"
| "js_mul PInf PInf = PInf"
| "js_mul PInf NInf = NInf"
| "js_mul NInf PInf = NInf"
| "js_mul NInf NInf = PInf"

text \<open>
  \<open>a / b\<close>: a real that is not zero over zero is an infinity of its sign, zero over zero
  and an infinity over an infinity are NaN, a real over an infinity is zero.
\<close>

fun js_div :: "number \<Rightarrow> number \<Rightarrow> number" where
  "js_div (Fin a) (Fin b) =
     (if b = 0 then (if a = 0 then NaN else signed_inf a) else round_double (a / b))"
| "js_div NaN _ = NaN"
| "js_div _ NaN = NaN"
| "js_div (Fin a) PInf = Fin 0"
| "js_div (Fin a) NInf = Fin 0"
| "js_div PInf (Fin b) = (if 0 \<le> b then PInf else NInf)"
| "js_div NInf (Fin b) = (if 0 \<le> b then NInf else PInf)"
| "js_div PInf PInf = NaN"
| "js_div PInf NInf = NaN"
| "js_div NInf PInf = NaN"
| "js_div NInf NInf = NaN"

text \<open>\<open>a > b\<close>: false as soon as one side is NaN.\<close>

fun js_gt :: "number \<Rightarrow> number \<Rightarrow> bool" where
  "js_gt (Fin a) (Fin b) = (b < a)"
| "js_gt NaN _ = False"
| "js_gt _ NaN = False"
| "js_gt PInf PInf = False"
| "js_gt PInf _ = True"
| "js_gt NInf _ = False"
| "js_gt (Fin a) NInf = True"
| "js_gt (Fin a) PInf = False"

text \<open>\<open>a >= b\<close>, used to state that a field does not increase.\<close>

fun js_ge :: "number \<Rightarrow> number \<Rightarrow> bool" where
  "js_ge (Fin a) (Fin b) = (b \<le> a)"
| "js_ge NaN _ = False"
| "js_ge _ NaN = False"
| "js_ge PInf _ = True"
| "js_ge NInf NInf = True"
| "js_ge NInf _ = False"
| "js_ge (Fin a) NInf = True"
| "js_ge (Fin a) PInf = False"

text \<open>\<open>a === b\<close> on numbers: NaN equals nothing, itself included.\<close>

fun js_seq :: "number \<Rightarrow> number \<Rightarrow> bool" where
  "js_seq NaN _ = False"
| "js_seq _ NaN = False"
| "js_seq a b = (a = b)"

text \<open>
  \<open>Math.log\<close>. ECMAScript leaves the accuracy of \<open>Math.log\<close> and \<open>Math.pow\<close> at ordinary
  arguments to the implementation; here both return the double nearest to the exact
  value. Their values at zero, at the infinities and at NaN are those of ECMAScript.
\<close>

fun Math_log :: "number \<Rightarrow> number" where
  "Math_log (Fin a) = (if a < 0 then NaN else if a = 0 then NInf else round_double (ln a))"
| "Math_log PInf = PInf"
| "Math_log NInf = NaN"
| "Math_log NaN = NaN"

text \<open>Whether a real is an odd integer.\<close>

definition odd_integer :: "real \<Rightarrow> bool" where
  "odd_integer y = (y \<in> \<int> \<and> odd \<lfloor>y\<rfloor>)"

text \<open>
  \<open>Math.pow\<close>, in the order of the cases of ECMAScript's \<open>Number::exponentiate\<close>.
\<close>

fun Math_pow :: "number \<Rightarrow> number \<Rightarrow> number" where
  "Math_pow _ NaN = NaN"
| "Math_pow NaN (Fin y) = (if y = 0 then Fin 1 else NaN)"
| "Math_pow NaN _ = NaN"
| "Math_pow PInf (Fin y) = (if y = 0 then Fin 1 else if 0 < y then PInf else Fin 0)"
| "Math_pow PInf PInf = PInf"
| "Math_pow PInf NInf = Fin 0"
| "Math_pow NInf (Fin y) =
     (if y = 0 then Fin 1
      else if 0 < y then (if odd_integer y then NInf else PInf)
      else Fin 0)"
| "Math_pow NInf PInf = PInf"
| "Math_pow NInf NInf = Fin 0"
| "Math_pow (Fin x) PInf =
     (if x = 0 then Fin 0
      else if 1 < \<bar>x\<bar> then PInf else if \<bar>x\<bar> = 1 then NaN else Fin 0)"
| "Math_pow (Fin x) NInf =
     (if x = 0 then PInf
      else if 1 < \<bar>x\<bar> then Fin 0 else if \<bar>x\<bar> = 1 then NaN else PInf)"
| "Math_pow (Fin x) (Fin y) =
     (if y = 0 then Fin 1
      else if x = 0 then (if 0 < y then Fin 0 else PInf)
      else if 0 < x then round_double (x powr y)
      else if y \<notin> \<int> then NaN
      else if odd_integer y then round_double (- (\<bar>x\<bar> powr y)) else round_double (\<bar>x\<bar> powr y))"

text \<open>\<open>Math.max(0, a)\<close>: NaN if the argument is.\<close>

fun Math_max0 :: "number \<Rightarrow> number" where
  "Math_max0 (Fin a) = Fin (max 0 a)"
| "Math_max0 PInf = PInf"
| "Math_max0 NInf = Fin 0"
| "Math_max0 NaN = NaN"

text \<open>The literal \<open>0.01\<close>: the double nearest to one hundredth.\<close>

definition cent :: number where
  "cent = round_double (1 / 100)"

section \<open>Rate and payment formulas\<close>

text \<open>\<open>getMonthlyRate\<close>: \<open>annualRate / 12 / 100\<close>.\<close>

definition getMonthlyRate :: "number \<Rightarrow> number" where
  "getMonthlyRate annualRate = js_div (js_div annualRate (Fin 12)) (Fin 100)"

text \<open>\<open>calculateMonthlyPayment\<close>: the annuity payment.\<close>

definition calculateMonthlyPayment :: "number \<Rightarrow> number \<Rightarrow> number \<Rightarrow> number" where
  "calculateMonthlyPayment princ monthlyRate totalMonths =
     (if js_seq monthlyRate (Fin 0) then js_div princ totalMonths
      else js_div
             (js_mul princ
                (js_mul monthlyRate (Math_pow (js_add (Fin 1) monthlyRate) totalMonths)))
             (js_sub (Math_pow (js_add (Fin 1) monthlyRate) totalMonths) (Fin 1)))"

text \<open>\<open>calculateRemainingMonths\<close>: the annuity formula solved for the number of months.\<close>

definition calculateRemainingMonths :: "number \<Rightarrow> number \<Rightarrow> number \<Rightarrow> number" where
  "calculateRemainingMonths princ monthlyRate pay =
     (if js_seq monthlyRate (Fin 0) then js_div princ pay
      else
        let numerator = Math_log (js_sub (Fin 1) (js_div (js_mul monthlyRate princ) pay));
            denominator = Math_log (js_add (Fin 1) monthlyRate)
        in js_div (js_neg numerator) denominator)"

section \<open>The simulation\<close>

text \<open>
  The parameter object. A numeric field holds the real that the number passed denotes:
  the predicate \<open>doubles\<close> below says that the four of them are doubles, as the
  parameters of a run of the program are. The strategy is the string the source compares
  with \<open>'quota'\<close>.
\<close>

record params =
  principal :: real
  annualRate :: real
  monthlyPayment :: real
  amortizationAmount :: real
  strategy :: string

text \<open>One entry of the schedule, with the property names of the source.\<close>

record entry =
  month :: nat
  balance :: number
  interest :: number
  payment :: number
  accumulatedInterest :: number

text \<open>
  The local variables of \<open>simulate\<close> that the loop changes. The month counter only takes
  the values 0 to 1200 and is a natural number.
\<close>

record vars =
  v_balance :: number
  v_currentPayment :: number
  v_totalInterest :: number
  v_totalPaid :: number
  v_months :: nat
  v_schedule :: "entry list"

text \<open>The object that \<open>simulate\<close> returns.\<close>

record result =
  schedule :: "entry list"
  totalInterest :: number
  totalYears :: number
  totalPaid :: number
  finalMonth :: nat

definition MAX_MONTHS :: nat where
  "MAX_MONTHS = 1200"

text \<open>The local \<open>rate\<close>, computed once before the loop.\<close>

definition rate :: "params \<Rightarrow> number" where
  "rate p = getMonthlyRate (Fin (annualRate p))"

text \<open>The values of the locals before the loop.\<close>

definition init :: "params \<Rightarrow> vars" where
  "init p = \<lparr>v_balance = Fin (principal p), v_currentPayment = Fin (monthlyPayment p),
     v_totalInterest = Fin 0, v_totalPaid = Fin 0, v_months = 0, v_schedule = []\<rparr>"

text \<open>
  The regular payment of a month: \<open>currentPayment\<close>, or \<open>balance + interest\<close> when the payment
  is greater.
\<close>

definition regular_payment :: "number \<Rightarrow> number \<Rightarrow> number \<Rightarrow> number" where
  "regular_payment cur bal intr =
     (if js_gt cur (js_add bal intr) then js_add bal intr else cur)"

text \<open>
  One pass through the body of the loop, from the locals \<open>s\<close> at its start. The values
  that the body computes on its way are named first.
\<close>

text \<open>\<open>let interest = balance * rate\<close>.\<close>

definition interest_due :: "params \<Rightarrow> vars \<Rightarrow> number" where
  "interest_due p s = js_mul (v_balance s) (rate p)"

text \<open>The local \<open>payment\<close>.\<close>

definition payment_due :: "params \<Rightarrow> vars \<Rightarrow> number" where
  "payment_due p s = regular_payment (v_currentPayment s) (v_balance s) (interest_due p s)"

text \<open>The balance after \<open>balance -= principalPortion\<close>.\<close>

definition balance_paid :: "params \<Rightarrow> vars \<Rightarrow> number" where
  "balance_paid p s = js_sub (v_balance s) (js_sub (payment_due p s) (interest_due p s))"

text \<open>
  The condition \<open>months % 12 === 0 && balance > 0 && amortizationAmount > 0\<close> of the extra
  payment, \<open>months\<close> being already incremented.
\<close>

definition amortize :: "params \<Rightarrow> vars \<Rightarrow> bool" where
  "amortize p s =
     ((v_months s + 1) mod 12 = 0 \<and> js_gt (balance_paid p s) (Fin 0)
      \<and> js_gt (Fin (amortizationAmount p)) (Fin 0))"

text \<open>The local \<open>extraPayment\<close>: zero unless the condition holds.\<close>

definition extraPayment :: "params \<Rightarrow> vars \<Rightarrow> number" where
  "extraPayment p s =
     (if amortize p s
      then (if js_gt (Fin (amortizationAmount p)) (balance_paid p s) then balance_paid p s
            else Fin (amortizationAmount p))
      else Fin 0)"

text \<open>The balance at the end of the pass.\<close>

definition balance_amortized :: "params \<Rightarrow> vars \<Rightarrow> number" where
  "balance_amortized p s =
     (if amortize p s then js_sub (balance_paid p s) (extraPayment p s) else balance_paid p s)"

text \<open>
  The body of \<open>if (strategy === 'quota')\<close>, from the balance after the extra payment, the
  extra payment, the rate and the payment in effect: the payment is kept unless the
  remaining term is greater than zero.
\<close>

definition recompute :: "number \<Rightarrow> number \<Rightarrow> number \<Rightarrow> number \<Rightarrow> number" where
  "recompute bal extra r cur =
     (let remainingN = calculateRemainingMonths (js_add bal extra) r cur
      in if js_gt remainingN (Fin 0) then calculateMonthlyPayment bal r remainingN else cur)"

text \<open>The local \<open>remainingN\<close> of that body in the pass from \<open>s\<close>.\<close>

definition remainingN :: "params \<Rightarrow> vars \<Rightarrow> number" where
  "remainingN p s =
     calculateRemainingMonths (js_add (balance_amortized p s) (extraPayment p s)) (rate p)
       (v_currentPayment s)"

text \<open>The locals at the end of the pass, with the entry pushed to the schedule.\<close>

definition step :: "params \<Rightarrow> vars \<Rightarrow> vars" where
  "step p s =
     \<lparr>v_balance = balance_amortized p s,
      v_currentPayment =
        (if amortize p s \<and> strategy p = ''quota''
         then recompute (balance_amortized p s) (extraPayment p s) (rate p) (v_currentPayment s)
         else v_currentPayment s),
      v_totalInterest = js_add (v_totalInterest s) (interest_due p s),
      v_totalPaid =
        (if amortize p s
         then js_add (js_add (v_totalPaid s) (payment_due p s)) (extraPayment p s)
         else js_add (v_totalPaid s) (payment_due p s)),
      v_months = v_months s + 1,
      v_schedule = v_schedule s @
        [\<lparr>month = v_months s + 1, balance = Math_max0 (balance_amortized p s),
          interest = interest_due p s,
          payment = js_add (payment_due p s) (extraPayment p s),
          accumulatedInterest = js_add (v_totalInterest s) (interest_due p s)\<rparr>]\<rparr>"

text \<open>The loop \<open>while (balance > 0.01 && months < MAX_MONTHS)\<close>.\<close>

function loop :: "params \<Rightarrow> vars \<Rightarrow> vars" where
  "loop p s =
     (if js_gt (v_balance s) cent \<and> v_months s < MAX_MONTHS
      then loop p (step p s) else s)"
  by pat_completeness auto
termination
  by (relation "measure (\<lambda>(p, s). MAX_MONTHS - v_months s)") (auto simp: step_def)

text \<open>The locals when the loop has ended.\<close>

definition run :: "params \<Rightarrow> vars" where
  "run p = loop p (init p)"

definition simulate :: "params \<Rightarrow> result" where
  "simulate p =
     (let s = run p
      in \<lparr>schedule = v_schedule s, totalInterest = v_totalInterest s,
           totalYears = js_div (Fin (real (v_months s))) (Fin 12),
           totalPaid = v_totalPaid s, finalMonth = v_months s\<rparr>)"





section \<open>Parameters that are doubles\<close>

definition doubles :: "params \<Rightarrow> bool" where
  "doubles p = (is_double (principal p) \<and> is_double (annualRate p)
     \<and> is_double (monthlyPayment p) \<and> is_double (amortizationAmount p))"

section \<open>Orderings of a schedule\<close>

text \<open>
  The balance does not increase along a schedule, and the accumulated interest does not
  decrease, under JavaScript's \<open>>=\<close>.
\<close>

definition balance_nonincreasing :: "entry list \<Rightarrow> bool" where
  "balance_nonincreasing es = sorted_wrt (\<lambda>x y. js_ge (balance x) (balance y)) es"

definition interest_nondecreasing :: "entry list \<Rightarrow> bool" where
  "interest_nondecreasing es =
     sorted_wrt (\<lambda>x y. js_ge (accumulatedInterest y) (accumulatedInterest x)) es"

section \<open>Parameter sets used as examples\<close>

text \<open>A loan whose payment is exactly the interest of a month, without extra payments.\<close>

definition interest_only_loan :: params where
  "interest_only_loan = \<lparr>principal = 100000, annualRate = 12, monthlyPayment = 1000,
     amortizationAmount = 0, strategy = ''term''\<rparr>"

text \<open>An interest-free loan of thirteen payments with a negative extra payment.\<close>

definition negative_amortization_loan :: params where
  "negative_amortization_loan = \<lparr>principal = 1300, annualRate = 0, monthlyPayment = 100,
     amortizationAmount = - 500, strategy = ''quota''\<rparr>"

text \<open>
  A loan under the \<open>'quota'\<close> strategy whose payment is exactly the interest of a month,
  with an extra payment of 5000 a year.
\<close>

definition degenerate_loan :: params where
  "degenerate_loan = \<lparr>principal = 100000, annualRate = 12, monthlyPayment = 1000,
     amortizationAmount = 5000, strategy = ''quota''\<rparr>"

text \<open>The double nearest to one hundredth, and the double nearest to \<open>1 + 0.01\<close>.\<close>

definition hundredth :: real where
  "hundredth = 5764607523034235 / 2 ^ 59"

definition one_percent_more :: real where
  "one_percent_more = 4548635623644201 / 2 ^ 52"

text \<open>
  An interest-only loan of the greatest power of two that is a double, at a monthly rate
  of 100 percent.
\<close>

definition huge :: real where
  "huge = 2 ^ 1023"



section \<open>Rounding\<close>

text \<open>
  Rounding to the nearest integer and to the nearest double: the rounded value is within
  half a unit of the exact one, rounding is monotone and odd, and it leaves a double
  unchanged.
\<close>

lemma round_even_int [simp]: "round_even (of_int n) = n"
  by (simp add: round_even_def)

lemma round_even_0 [simp]: "round_even 0 = 0"
  using round_even_int [of 0] by simp

lemma round_even_power2 [simp]: "round_even (2 ^ d) = 2 ^ d"
  using round_even_int [of "2 ^ d"] by simp

lemma round_even_bounds: "\<lfloor>y\<rfloor> \<le> round_even y \<and> round_even y \<le> \<lfloor>y\<rfloor> + 1"
  by (simp add: round_even_def Let_def)

lemma round_even_mono: "x \<le> y \<Longrightarrow> round_even x \<le> round_even y"
proof -
  assume xy: "x \<le> y"
  then have f: "\<lfloor>x\<rfloor> \<le> \<lfloor>y\<rfloor>" by (rule floor_mono)
  show ?thesis
  proof (cases "\<lfloor>x\<rfloor> = \<lfloor>y\<rfloor>")
    case True
    then show ?thesis using xy by (auto simp: round_even_def Let_def)
  next
    case False
    then have "\<lfloor>x\<rfloor> + 1 \<le> \<lfloor>y\<rfloor>" using f by simp
    then show ?thesis using round_even_bounds [of x] round_even_bounds [of y] by linarith
  qed
qed

lemma round_even_uminus: "round_even (- y) = - round_even y"
proof (cases "y \<in> \<int>")
  case True
  then obtain n where "y = of_int n" by (auto elim: Ints_cases)
  then have "- y = of_int (- n)" by simp
  then show ?thesis using \<open>y = of_int n\<close> by (metis round_even_int)
next
  case False
  then have ne: "y \<noteq> of_int \<lfloor>y\<rfloor>" by (metis Ints_of_int)
  then have f: "\<lfloor>- y\<rfloor> = - \<lfloor>y\<rfloor> - 1"
    by (simp add: floor_minus ceiling_altdef)
  have "of_int \<lfloor>y\<rfloor> \<le> y" "y < of_int \<lfloor>y\<rfloor> + 1" by linarith+
  then show ?thesis using ne
    unfolding round_even_def Let_def f by (auto simp: algebra_simps)
qed

lemma round_even_error: "\<bar>of_int (round_even y) - y\<bar> \<le> 1 / 2"
proof -
  have "of_int \<lfloor>y\<rfloor> \<le> y" "y < of_int \<lfloor>y\<rfloor> + 1" by linarith+
  then show ?thesis by (auto simp: round_even_def Let_def abs_le_iff)
qed

lemma round_even_unique: "\<bar>y - of_int m\<bar> < 1 / 2 \<Longrightarrow> round_even y = m"
proof -
  assume a: "\<bar>y - of_int m\<bar> < 1 / 2"
  have e: "\<bar>of_int (round_even y) - y\<bar> \<le> 1 / 2" by (rule round_even_error)
  have "\<bar>of_int (round_even y) - (of_int m :: real)\<bar> < 1" using a e by linarith
  then have "\<bar>of_int (round_even y - m) :: real\<bar> < 1" by simp
  then have "\<bar>round_even y - m\<bar> < 1" by (metis of_int_abs of_int_less_1_iff)
  then show ?thesis by simp
qed


lemma floor_log2_iff:
  assumes "x \<noteq> 0"
  shows "\<lfloor>log 2 \<bar>x\<bar>\<rfloor> = k \<longleftrightarrow> 2 powi k \<le> \<bar>x\<bar> \<and> \<bar>x\<bar> < 2 powi (k + 1)"
proof -
  have "0 < \<bar>x\<bar>" using assms by simp
  then have "\<lfloor>log 2 \<bar>x\<bar>\<rfloor> = k \<longleftrightarrow> 2 powr (of_int k) \<le> \<bar>x\<bar> \<and> \<bar>x\<bar> < 2 powr (of_int k + 1)"
    by (simp add: floor_log_eq_powr_iff)
  moreover have "(2::real) powr (of_int k) = 2 powi k" by (simp add: powr_real_of_int')
  moreover have "(2::real) powr (of_int k + 1) = 2 powi (k + 1)"
    using powr_real_of_int' [of "2::real" "k + 1"] by simp
  ultimately show ?thesis by simp
qed

lemma floor_log2_bounds:
  assumes "x \<noteq> 0"
  shows "2 powi \<lfloor>log 2 \<bar>x\<bar>\<rfloor> \<le> \<bar>x\<bar>" and "\<bar>x\<bar> < 2 powi (\<lfloor>log 2 \<bar>x\<bar>\<rfloor> + 1)"
  using floor_log2_iff [OF assms, of "\<lfloor>log 2 \<bar>x\<bar>\<rfloor>"] by simp_all

lemma powi2_mono: "a \<le> b \<Longrightarrow> (2::real) powi a \<le> 2 powi b"
  by (rule power_int_increasing) simp_all

lemma powi2_less_imp: "(2::real) powi a < 2 powi b \<Longrightarrow> a < b"
  by (rule ccontr) (use powi2_mono [of b a] in simp)

lemma ulp_exp_ge: "- 1074 \<le> ulp_exp x"
  by (simp add: ulp_exp_def)

lemma ulp_exp_uminus [simp]: "ulp_exp (- x) = ulp_exp x"
  by (simp add: ulp_exp_def)

lemma ulp_exp_abs [simp]: "ulp_exp \<bar>x\<bar> = ulp_exp x"
  by (simp add: ulp_exp_def)

lemma ulp_exp_upper: "\<bar>x\<bar> < 2 powi (ulp_exp x + 53)"
proof (cases "x = 0")
  case True
  then show ?thesis by simp
next
  case False
  have "\<lfloor>log 2 \<bar>x\<bar>\<rfloor> + 1 \<le> ulp_exp x + 53" using False by (simp add: ulp_exp_def)
  then have "(2::real) powi (\<lfloor>log 2 \<bar>x\<bar>\<rfloor> + 1) \<le> 2 powi (ulp_exp x + 53)" by (rule powi2_mono)
  then show ?thesis using floor_log2_bounds(2) [OF False] by linarith
qed

lemma ulp_exp_normal:
  assumes "- 1074 < ulp_exp x"
  shows "2 powi (ulp_exp x + 52) \<le> \<bar>x\<bar>"
proof -
  have ne: "x \<noteq> 0" using assms by (auto simp: ulp_exp_def)
  then have "ulp_exp x + 52 = \<lfloor>log 2 \<bar>x\<bar>\<rfloor>" using assms by (simp add: ulp_exp_def max_def split: if_splits)
  then show ?thesis using floor_log2_bounds(1) [OF ne] by simp
qed

lemma ulp_exp_le:
  assumes "\<bar>x\<bar> < 2 powi (e + 53)" and "- 1074 \<le> e"
  shows "ulp_exp x \<le> e"
proof (cases "x = 0")
  case True
  then show ?thesis using assms(2) by (simp add: ulp_exp_def)
next
  case False
  have "(2::real) powi \<lfloor>log 2 \<bar>x\<bar>\<rfloor> < 2 powi (e + 53)"
    using floor_log2_bounds(1) [OF False] assms(1) by linarith
  then have "\<lfloor>log 2 \<bar>x\<bar>\<rfloor> < e + 53" by (rule powi2_less_imp)
  then show ?thesis using False assms(2) by (simp add: ulp_exp_def)
qed

lemma ulp_exp_eq:
  assumes "2 powi (e + 52) \<le> \<bar>x\<bar>" and "\<bar>x\<bar> < 2 powi (e + 53)" and "- 1074 \<le> e"
  shows "ulp_exp x = e"
proof -
  have ne: "x \<noteq> 0"
  proof
    assume "x = 0"
    with assms(1) have "(2::real) powi (e + 52) \<le> 0" by simp
    moreover have "(0::real) < 2 powi (e + 52)" by simp
    ultimately show False by linarith
  qed
  have "\<lfloor>log 2 \<bar>x\<bar>\<rfloor> = e + 52"
    using assms(1,2) by (simp add: floor_log2_iff [OF ne] add.commute add.left_commute)
  then show ?thesis using ne assms(3) by (simp add: ulp_exp_def)
qed

lemma ulp_exp_mono:
  assumes "\<bar>x\<bar> \<le> \<bar>y\<bar>"
  shows "ulp_exp x \<le> ulp_exp y"
proof -
  have "\<bar>x\<bar> < 2 powi (ulp_exp y + 53)" using ulp_exp_upper [of y] assms by linarith
  then show ?thesis using ulp_exp_ge [of y] by (rule ulp_exp_le)
qed


lemma round_real_0 [simp]: "round_real 0 = 0"
  by (simp add: round_real_def)

lemma round_real_uminus: "round_real (- x) = - round_real x"
  by (simp add: round_real_def round_even_uminus)

lemma round_real_nonneg: "0 \<le> x \<Longrightarrow> 0 \<le> round_real x"
proof -
  assume "0 \<le> x"
  then have "(0::real) \<le> x / 2 powi ulp_exp x" by simp
  then have "round_even 0 \<le> round_even (x / 2 powi ulp_exp x)"
    by (rule round_even_mono)
  then show ?thesis by (simp add: round_real_def)
qed

lemma round_real_grid:
  assumes "\<bar>m\<bar> < 2 ^ 53" and "- 1074 \<le> e"
  shows "round_real (of_int m * 2 powi e) = of_int m * 2 powi e"
proof -
  define x :: real where "x = of_int m * 2 powi e"
  define E where "E = ulp_exp x"
  have "\<bar>of_int m :: real\<bar> < 2 ^ 53"
    using assms(1) by (metis of_int_abs of_int_less_numeral_power_cancel_iff)
  then have "\<bar>x\<bar> < 2 ^ 53 * 2 powi e" by (simp add: x_def abs_mult)
  also have "\<dots> = 2 powi (e + 53)" by (simp add: power_int_add)
  finally have "E \<le> e" unfolding E_def using assms(2) by (rule ulp_exp_le)
  define d where "d = nat (e - E)"
  have "e = E + int d" using \<open>E \<le> e\<close> by (simp add: d_def)
  then have p: "(2::real) powi e = 2 powi E * 2 ^ d"
    by (metis power_int_add power_int_of_nat zero_neq_numeral)
  have "x / 2 powi E = of_int (m * 2 ^ d)" by (simp add: x_def p)
  then have "round_even (x / 2 powi E) = m * 2 ^ d" by (metis round_even_int)
  then have "round_real x = of_int (m * 2 ^ d) * 2 powi E" by (simp add: round_real_def E_def)
  also have "\<dots> = x" by (simp add: x_def p)
  finally show ?thesis by (simp add: x_def)
qed

lemma round_real_mono_nonneg:
  assumes "0 \<le> x" and "x \<le> y"
  shows "round_real x \<le> round_real y"
proof -
  have E: "ulp_exp x \<le> ulp_exp y" using assms by (intro ulp_exp_mono) simp
  show ?thesis
  proof (cases "ulp_exp x = ulp_exp y")
    case True
    have "x / 2 powi ulp_exp y \<le> y / 2 powi ulp_exp y"
      using assms(2) by (simp add: divide_right_mono)
    then have "round_even (x / 2 powi ulp_exp y) \<le> round_even (y / 2 powi ulp_exp y)"
      by (rule round_even_mono)
    then show ?thesis by (simp add: round_real_def True)
  next
    case False
    then have lt: "ulp_exp x < ulp_exp y" using E by simp
    then have n: "- 1074 < ulp_exp y" using ulp_exp_ge [of x] by linarith
    define B :: real where "B = 2 powi (ulp_exp y + 52)"
    define d where "d = nat (ulp_exp y + 52 - ulp_exp x)"
    have By: "B \<le> y" using ulp_exp_normal [OF n] assms by (simp add: B_def)
    have "\<bar>x\<bar> < 2 powi (ulp_exp x + 53)" by (rule ulp_exp_upper)
    also have "\<dots> \<le> B" unfolding B_def using lt by (intro powi2_mono) simp
    finally have xB: "x \<le> B" by simp
    have "ulp_exp y + 52 = ulp_exp x + int d" using lt by (simp add: d_def)
    then have Bd: "B = 2 powi ulp_exp x * 2 ^ d"
      unfolding B_def by (metis power_int_add power_int_of_nat zero_neq_numeral)
    have "x / 2 powi ulp_exp x \<le> B / 2 powi ulp_exp x" using xB by (simp add: divide_right_mono)
    also have "B / 2 powi ulp_exp x = of_int (2 ^ d)" using Bd by simp
    finally have "round_even (x / 2 powi ulp_exp x) \<le> round_even (of_int (2 ^ d))"
      by (rule round_even_mono)
    then have "round_even (x / 2 powi ulp_exp x) \<le> 2 ^ d" by (simp only: round_even_int)
    then have "(of_int (round_even (x / 2 powi ulp_exp x)) :: real) \<le> of_int (2 ^ d)"
      by (simp only: of_int_le_iff)
    then have "round_real x \<le> of_int (2 ^ d) * 2 powi ulp_exp x"
      unfolding round_real_def by (intro mult_right_mono) simp_all
    then have 1: "round_real x \<le> B" using Bd by (simp add: mult.commute)
    have "B = 2 ^ 52 * 2 powi ulp_exp y" by (simp add: B_def power_int_add)
    then have "of_int (2 ^ 52) = B / 2 powi ulp_exp y" by simp
    also have "\<dots> \<le> y / 2 powi ulp_exp y" using By by (simp add: divide_right_mono)
    finally have "round_even (of_int (2 ^ 52)) \<le> round_even (y / 2 powi ulp_exp y)"
      by (rule round_even_mono)
    then have "2 ^ 52 \<le> round_even (y / 2 powi ulp_exp y)" by (simp only: round_even_int)
    then have "(of_int (2 ^ 52) :: real) \<le> of_int (round_even (y / 2 powi ulp_exp y))"
      by (simp only: of_int_le_iff)
    then have "of_int (2 ^ 52) * 2 powi ulp_exp y \<le> round_real y"
      unfolding round_real_def by (intro mult_right_mono) simp_all
    then have "B \<le> round_real y" using \<open>B = 2 ^ 52 * 2 powi ulp_exp y\<close> by simp
    then show ?thesis using 1 by linarith
  qed
qed

lemma round_real_mono:
  assumes "x \<le> y"
  shows "round_real x \<le> round_real y"
proof -
  consider "0 \<le> x" | "y \<le> 0" | "x < 0" "0 < y" by linarith
  then show ?thesis
  proof cases
    case 1
    then show ?thesis using assms by (rule round_real_mono_nonneg)
  next
    case 2
    then have "round_real (- y) \<le> round_real (- x)"
      using assms by (intro round_real_mono_nonneg) simp_all
    then show ?thesis by (simp add: round_real_uminus)
  next
    case 3
    have "0 \<le> round_real (- x)" using 3 by (intro round_real_nonneg) simp
    moreover have "0 \<le> round_real y" using 3 by (intro round_real_nonneg) simp
    ultimately show ?thesis by (simp add: round_real_uminus)
  qed
qed

lemma round_real_error: "\<bar>round_real x - x\<bar> \<le> 2 powi ulp_exp x / 2"
proof -
  define u :: real where "u = 2 powi ulp_exp x"
  define n :: real where "n = of_int (round_even (x / u))"
  have u: "0 < u" by (simp add: u_def)
  have a: "\<bar>n - x / u\<bar> \<le> 1 / 2" unfolding n_def by (rule round_even_error)
  have "n * u - x = (n - x / u) * u" using u by (simp add: left_diff_distrib)
  then have "\<bar>n * u - x\<bar> = \<bar>n - x / u\<bar> * u" using u by (simp add: abs_mult)
  also have "\<dots> \<le> 1 / 2 * u" using a u by (intro mult_right_mono) simp_all
  finally have "\<bar>n * u - x\<bar> \<le> u / 2" by simp
  then show ?thesis by (simp add: round_real_def u_def n_def)
qed

lemma round_real_idem: "round_real (round_real x) = round_real x"
proof -
  define n where "n = round_even (x / 2 powi ulp_exp x)"
  have "\<bar>x\<bar> < 2 powi (ulp_exp x + 53)" by (rule ulp_exp_upper)
  also have "\<dots> = 2 ^ 53 * 2 powi ulp_exp x" by (simp add: power_int_add)
  finally have "\<bar>x\<bar> / 2 powi ulp_exp x < 2 ^ 53" by (simp add: field_simps)
  moreover define q where "q = x / 2 powi ulp_exp x"
  ultimately have "\<bar>q\<bar> < 2 ^ 53" by simp
  then have lo: "of_int (- (2 ^ 53)) \<le> q" and hi: "q \<le> of_int (2 ^ 53)" by simp_all
  have "round_even (of_int (- (2 ^ 53))) \<le> round_even q" using lo by (rule round_even_mono)
  moreover have "round_even q \<le> round_even (of_int (2 ^ 53))" using hi by (rule round_even_mono)
  ultimately have "- (2 ^ 53) \<le> n" "n \<le> 2 ^ 53" by (simp_all only: round_even_int n_def q_def)
  then consider "\<bar>n\<bar> < 2 ^ 53" | "n = 2 ^ 53" | "n = - (2 ^ 53)" by linarith
  then show ?thesis
  proof cases
    case 1
    then show ?thesis
      using round_real_grid [OF 1 ulp_exp_ge [of x]] by (simp add: round_real_def n_def)
  next
    case 2
    have "round_real x = of_int 1 * 2 powi (ulp_exp x + 53)"
      using 2 by (simp add: round_real_def n_def [symmetric] power_int_add)
    moreover have "round_real (of_int 1 * 2 powi (ulp_exp x + 53)) = of_int 1 * 2 powi (ulp_exp x + 53)"
      using ulp_exp_ge [of x] by (intro round_real_grid) simp_all
    ultimately show ?thesis by simp
  next
    case 3
    have "round_real x = of_int (- 1) * 2 powi (ulp_exp x + 53)"
      using 3 by (simp add: round_real_def n_def [symmetric] power_int_add)
    moreover have "round_real (of_int (- 1) * 2 powi (ulp_exp x + 53))
        = of_int (- 1) * 2 powi (ulp_exp x + 53)"
      using ulp_exp_ge [of x] by (intro round_real_grid) simp_all
    ultimately show ?thesis by simp
  qed
qed


lemma round_double_cases:
  obtains (Fin) "round_double x = Fin (round_real x)" "\<bar>round_real x\<bar> < 2 ^ 1024"
  | (PInf) "round_double x = PInf" "2 ^ 1024 \<le> round_real x" "0 < x"
  | (NInf) "round_double x = NInf" "round_real x \<le> - (2 ^ 1024)" "x < 0"
proof (cases "2 ^ 1024 \<le> \<bar>round_real x\<bar>")
  case False
  then show ?thesis by (intro Fin) (simp_all add: round_double_def)
next
  case True
  show ?thesis
  proof (cases "0 < x")
    case pos: True
    then have "0 \<le> round_real x" by (intro round_real_nonneg) simp
    then show ?thesis using True pos by (intro PInf) (simp_all add: round_double_def signed_inf_def)
  next
    case neg: False
    then have "0 \<le> round_real (- x)" by (intro round_real_nonneg) simp
    then have le: "round_real x \<le> 0" by (simp add: round_real_uminus)
    have "x \<noteq> 0" using True by auto
    then show ?thesis using True neg le by (intro NInf) (simp_all add: round_double_def signed_inf_def)
  qed
qed

lemma round_double_not_NaN [simp]: "round_double x \<noteq> NaN"
  by (cases x rule: round_double_cases) simp_all

lemma round_double_0 [simp]: "round_double 0 = Fin 0"
  by (simp add: round_double_def)

lemma round_double_uminus: "round_double (- x) = js_neg (round_double x)"
  by (cases "x = 0") (auto simp: round_double_def round_real_uminus signed_inf_def)

lemma round_double_mono:
  assumes "x \<le> y"
  shows "js_ge (round_double y) (round_double x)"
proof -
  have m: "round_real x \<le> round_real y" using assms by (rule round_real_mono)
  show ?thesis
  proof (cases y rule: round_double_cases)
    case Fin
    then show ?thesis using m assms by (cases x rule: round_double_cases) simp_all
  next
    case PInf
    then show ?thesis by (cases x rule: round_double_cases) simp_all
  next
    case NInf
    then show ?thesis using m assms by (cases x rule: round_double_cases) simp_all
  qed
qed

lemma is_doubleD: "is_double x \<Longrightarrow> round_real x = x \<and> \<bar>x\<bar> < 2 ^ 1024"
  by (cases x rule: round_double_cases) (simp_all add: is_double_def)

lemma is_doubleI: "round_real x = x \<Longrightarrow> \<bar>x\<bar> < 2 ^ 1024 \<Longrightarrow> is_double x"
  by (simp add: is_double_def round_double_def)

lemma round_double_idem: "round_double x = Fin v \<Longrightarrow> is_double v"
  by (cases x rule: round_double_cases) (auto intro!: is_doubleI simp: round_real_idem)

lemma is_double_uminus [simp]: "is_double (- x) = is_double x"
  by (cases "round_double x") (auto simp: is_double_def round_double_uminus)

lemma is_double_0 [simp]: "is_double 0"
  by (simp add: is_double_def)

lemma round_double_between:
  assumes "is_double lo" and "is_double hi" and "lo \<le> x" and "x \<le> hi"
  obtains v where "round_double x = Fin v" "lo \<le> v" "v \<le> hi" "is_double v"
proof -
  have lo: "round_real lo = lo" "\<bar>lo\<bar> < 2 ^ 1024" using is_doubleD [OF assms(1)] by simp_all
  have hi: "round_real hi = hi" "\<bar>hi\<bar> < 2 ^ 1024" using is_doubleD [OF assms(2)] by simp_all
  have 1: "lo \<le> round_real x" using round_real_mono [OF assms(3)] lo by simp
  have 2: "round_real x \<le> hi" using round_real_mono [OF assms(4)] hi by simp
  have "\<bar>round_real x\<bar> < 2 ^ 1024" using 1 2 lo(2) hi(2) by linarith
  then have r: "round_double x = Fin (round_real x)" by (simp add: round_double_def)
  show ?thesis using that [OF r 1 2 round_double_idem [OF r]] .
qed

lemma round_double_nonneg:
  assumes "0 \<le> x"
  obtains (Fin) v where "round_double x = Fin v" "0 \<le> v" "is_double v"
  | (PInf) "round_double x = PInf"
proof (cases x rule: round_double_cases)
  case Fin
  have "0 \<le> round_real x" using assms by (rule round_real_nonneg)
  then show ?thesis using Fin that(1) round_double_idem by blast
next
  case PInf
  then show ?thesis using that(2) by blast
next
  case NInf
  then show ?thesis using assms by simp
qed

lemma is_double_grid:
  assumes "\<bar>m\<bar> < 2 ^ 53" and "- 1074 \<le> e" and "\<bar>of_int m * 2 powi e :: real\<bar> < 2 ^ 1024"
  shows "is_double (of_int m * 2 powi e)"
  using round_real_grid [OF assms(1,2)] assms(3) by (rule is_doubleI)

lemma is_double_dyadic:
  assumes "\<bar>m\<bar> < 2 ^ 53" and "k \<le> 1074"
  shows "is_double (of_int m / 2 ^ k)"
proof -
  have p: "(2::real) powi (- int k) = 1 / 2 ^ k" by (simp add: power_int_minus field_simps)
  have "\<bar>of_int m :: real\<bar> < 2 ^ 53"
    using assms(1) by (metis of_int_abs of_int_less_numeral_power_cancel_iff)
  moreover have "(1::real) \<le> 2 ^ k" by simp
  ultimately have "\<bar>of_int m :: real\<bar> * 1 < 2 ^ 53 * 2 ^ k"
    by (intro mult_less_le_imp_less) simp_all
  then have "\<bar>of_int m :: real\<bar> / 2 ^ k < 2 ^ 53" by (simp add: field_simps)
  then have "\<bar>of_int m * 2 powi (- int k) :: real\<bar> < 2 ^ 1024" by (simp add: p abs_mult)
  then have "is_double (of_int m * 2 powi (- int k))"
    using assms by (intro is_double_grid) simp_all
  then show ?thesis by (simp add: p)
qed

lemma is_double_int: "\<bar>n\<bar> < 2 ^ 53 \<Longrightarrow> is_double (of_int n)"
  using is_double_dyadic [of n 0] by simp

lemma is_double_power2:
  assumes "k \<le> 1023"
  shows "is_double (2 ^ k)"
proof -
  have "(2::real) ^ k < 2 ^ 1024" using assms by (intro power_strict_increasing) simp_all
  then show ?thesis using is_double_grid [of 1 "int k"] by simp
qed

lemma is_double_numeral [simp]: "numeral k < (2 ^ 53 :: int) \<Longrightarrow> is_double (numeral k)"
  using is_double_int [of "numeral k"] by simp

lemma is_double_1 [simp]: "is_double 1"
  using is_double_int [of 1] by simp

lemma round_double_numeral [simp]:
  "numeral k < (2 ^ 53 :: int) \<Longrightarrow> round_double (numeral k) = Fin (numeral k)"
  using is_double_numeral [of k] by (simp add: is_double_def)

lemma round_double_neg_numeral [simp]:
  "numeral k < (2 ^ 53 :: int) \<Longrightarrow> round_double (- numeral k) = Fin (- numeral k)"
  by (simp add: round_double_uminus)

lemma round_double_1 [simp]: "round_double 1 = Fin 1"
  using is_double_1 by (simp add: is_double_def)

lemma round_double_eval:
  assumes "2 ^ 52 \<le> \<bar>x\<bar> * 2 ^ k" and "\<bar>x\<bar> * 2 ^ k < 2 ^ 53" and "k \<le> 1074"
    and "\<bar>x * 2 ^ k - of_int m\<bar> < 1 / 2"
  shows "round_double x = Fin (of_int m / 2 ^ k)"
proof -
  have p: "(2::real) powi (- int k) = 1 / 2 ^ k" by (simp add: power_int_minus field_simps)
  have "(2::real) powi (52 - int k) = 2 ^ 52 / 2 ^ k" by (simp add: power_int_diff)
  then have A: "(2::real) powi (- int k + 52) = 2 ^ 52 / 2 ^ k" by (simp add: add.commute)
  have 1: "2 powi (- int k + 52) \<le> \<bar>x\<bar>"
    by (subst A) (use assms(1) in \<open>simp add: pos_divide_le_eq\<close>)
  have "(2::real) powi (53 - int k) = 2 ^ 53 / 2 ^ k" by (simp add: power_int_diff)
  then have B: "(2::real) powi (- int k + 53) = 2 ^ 53 / 2 ^ k" by (simp add: add.commute)
  have 2: "\<bar>x\<bar> < 2 powi (- int k + 53)"
    by (subst B) (use assms(2) in \<open>simp add: pos_less_divide_eq\<close>)
  have E: "ulp_exp x = - int k" using 1 2 assms(3) by (intro ulp_exp_eq) simp_all
  have "x / 2 powi ulp_exp x = x * 2 ^ k" by (simp add: E p)
  then have "round_even (x / 2 powi ulp_exp x) = m" using assms(4) by (simp add: round_even_unique)
  then have r: "round_real x = of_int m / 2 ^ k" by (simp add: round_real_def E p)
  have e1: "\<bar>round_real x - x\<bar> \<le> 2 powi ulp_exp x / 2" by (rule round_real_error)
  have "(2::real) powi ulp_exp x \<le> 2 powi 0" unfolding E by (rule powi2_mono) simp
  then have e2: "(2::real) powi ulp_exp x \<le> 1" by simp
  have "\<bar>x\<bar> * 1 \<le> \<bar>x\<bar> * 2 ^ k" by (intro mult_left_mono) simp_all
  then have e3: "\<bar>x\<bar> < 2 ^ 53" using assms(2) by simp
  have "\<bar>round_real x\<bar> \<le> \<bar>round_real x - x\<bar> + \<bar>x\<bar>" by simp
  then have "\<bar>round_real x\<bar> < 2 ^ 53 + 1" using e1 e2 e3 by linarith
  then have "\<bar>round_real x\<bar> < 2 ^ 1024" by simp
  then show ?thesis by (simp add: round_double_def r)
qed

section \<open>Operators on doubles\<close>

lemma js_sub_Fin [simp]: "js_sub (Fin a) (Fin b) = round_double (a - b)"
  by (simp add: js_sub_def)

lemma js_sub_NaN [simp]: "js_sub NaN x = NaN" "js_sub x NaN = NaN"
  by (cases x; simp add: js_sub_def)+

lemma js_sub_inf [simp]:
  "js_sub PInf (Fin a) = PInf" "js_sub NInf (Fin a) = NInf"
  "js_sub (Fin a) PInf = NInf" "js_sub (Fin a) NInf = PInf"
  "js_sub PInf NInf = PInf" "js_sub NInf PInf = NInf"
  "js_sub PInf PInf = NaN" "js_sub NInf NInf = NaN"
  by (simp_all add: js_sub_def)

lemma js_ge_refl: "x \<noteq> NaN \<Longrightarrow> js_ge x x"
  by (cases x) simp_all

lemma js_ge_trans: "js_ge a b \<Longrightarrow> js_ge b c \<Longrightarrow> js_ge a c"
  by (cases a; cases b; cases c) simp_all

subsection \<open>Some roundings\<close>

lemma round_hundredth: "round_double (1 / 100) = Fin hundredth"
  using round_double_eval [of "1 / 100" 59 5764607523034235] by (simp add: hundredth_def)

lemma cent_hundredth: "cent = Fin hundredth"
  by (simp add: cent_def round_hundredth)

lemma hundredth_bounds: "1 / 128 < hundredth" "hundredth < 1 / 64"
  by (simp_all add: hundredth_def)

lemma is_double_hundredth: "is_double hundredth"
  using round_hundredth by (rule round_double_idem)

lemma round_interest_100000: "round_double (100000 * hundredth) = Fin 1000"
  using round_double_eval [of "100000 * hundredth" 43 "1000 * 2 ^ 43"]
  by (simp add: hundredth_def)

lemma round_interest_95000: "round_double (95000 * hundredth) = Fin 950"
  using round_double_eval [of "95000 * hundredth" 43 "950 * 2 ^ 43"]
  by (simp add: hundredth_def)

lemma round_one_percent_more: "round_double (1 + hundredth) = Fin one_percent_more"
  using round_double_eval [of "1 + hundredth" 52 4548635623644201]
  by (simp add: hundredth_def one_percent_more_def)

lemma one_percent_more_bounds: "1 < one_percent_more" "one_percent_more < 2"
  by (simp_all add: one_percent_more_def)

section \<open>The loop\<close>

declare loop.simps [simp del]

lemmas step_parts = interest_due_def payment_due_def balance_paid_def amortize_def
  extraPayment_def balance_amortized_def remainingN_def

lemma loop_continue:
  "js_gt (v_balance s) cent \<Longrightarrow> v_months s < MAX_MONTHS \<Longrightarrow> loop p s = loop p (step p s)"
  by (subst loop.simps) simp

lemma loop_stop:
  assumes "\<not> (js_gt (v_balance s) cent \<and> v_months s < MAX_MONTHS)"
  shows "loop p s = s"
  using assms loop.simps [of p s] by presburger

lemma step_months [simp]: "v_months (step p s) = Suc (v_months s)"
  by (simp add: step_def step_parts)

lemma step_schedule_length [simp]:
  "length (v_schedule (step p s)) = Suc (length (v_schedule s))"
  by (simp add: step_def step_parts)

lemma loop_invariant:
  assumes init: "I s"
    and pres: "\<And>t. I t \<Longrightarrow> js_gt (v_balance t) cent \<Longrightarrow> v_months t < MAX_MONTHS
           \<Longrightarrow> I (step p t)"
  shows "I (loop p s)"
  using init
proof (induction "MAX_MONTHS - v_months s" arbitrary: s)
  case 0
  then have "loop p s = s" by (intro loop_stop) simp
  with 0 show ?case by simp
next
  case (Suc n)
  show ?case
  proof (cases "js_gt (v_balance s) cent \<and> v_months s < MAX_MONTHS")
    case True
    have "I (step p s)" using pres [OF Suc.prems] True by simp
    moreover have "n = MAX_MONTHS - v_months (step p s)" using Suc.hyps(2) by simp
    ultimately have "I (loop p (step p s))" by (rule Suc.hyps(1) [rotated])
    moreover have "loop p s = loop p (step p s)" using True by (intro loop_continue) simp_all
    ultimately show ?thesis by simp
  next
    case False
    then have "loop p s = s" by (rule loop_stop)
    with Suc.prems show ?thesis by simp
  qed
qed

lemma loop_exit:
  "\<not> (js_gt (v_balance (loop p s)) cent \<and> v_months (loop p s) < MAX_MONTHS)"
proof (induction p s rule: loop.induct)
  case (1 p s)
  show ?case
  proof (cases "js_gt (v_balance s) cent \<and> v_months s < MAX_MONTHS")
    case True
    then show ?thesis using "1.IH" by (simp add: loop_continue)
  next
    case False
    then show ?thesis by (simp add: loop_stop)
  qed
qed

lemma loop_months_bound: "v_months s \<le> MAX_MONTHS \<Longrightarrow> v_months (loop p s) \<le> MAX_MONTHS"
  by (rule loop_invariant [where I = "\<lambda>t. v_months t \<le> MAX_MONTHS"]) auto

lemma loop_schedule_length:
  "length (v_schedule s) = v_months s \<Longrightarrow> length (v_schedule (loop p s)) = v_months (loop p s)"
  by (rule loop_invariant [where I = "\<lambda>t. length (v_schedule t) = v_months t"]) auto

lemma step_schedule_months:
  "map month (v_schedule (step p s)) = map month (v_schedule s) @ [Suc (v_months s)]"
  by (simp add: step_def step_parts)

lemma loop_schedule_months:
  "map month (v_schedule s) = [1 ..< Suc (v_months s)]
   \<Longrightarrow> map month (v_schedule (loop p s)) = [1 ..< Suc (v_months (loop p s))]"
  by (rule loop_invariant [where I = "\<lambda>t. map month (v_schedule t) = [1 ..< Suc (v_months t)]"])
     (auto simp: step_schedule_months)

text \<open>
  Claim C1. \<open>simulate\<close> is a total function: its loop is defined by well-founded recursion
  on \<open>MAX_MONTHS - months\<close>. Every pass adds one month and one schedule entry, so for every
  parameter set the schedule has as many entries as \<open>finalMonth\<close> says, numbered from 1,
  that number is at most 1200, and a run that ends with a balance still greater than 0.01
  returns its schedule of exactly 1200 months as an ordinary result.
\<close>

theorem simulate_bounded:
  "length (schedule (simulate p)) = finalMonth (simulate p)
   \<and> map month (schedule (simulate p)) = [1 ..< Suc (finalMonth (simulate p))]
   \<and> finalMonth (simulate p) \<le> MAX_MONTHS \<and> MAX_MONTHS = 1200
   \<and> (js_gt (v_balance (run p)) cent \<longrightarrow> finalMonth (simulate p) = 1200)"
proof -
  have a: "length (v_schedule (run p)) = v_months (run p)"
    unfolding run_def by (rule loop_schedule_length) (simp add: init_def)
  have b: "v_months (run p) \<le> MAX_MONTHS"
    unfolding run_def by (rule loop_months_bound) (simp add: init_def)
  have c: "map month (v_schedule (run p)) = [1 ..< Suc (v_months (run p))]"
    unfolding run_def by (rule loop_schedule_months) (simp add: init_def)
  have d: "js_gt (v_balance (run p)) cent \<longrightarrow> v_months (run p) = 1200"
    using loop_exit [of p "init p"] b by (auto simp: run_def MAX_MONTHS_def)
  show ?thesis using a b c d by (simp add: simulate_def Let_def MAX_MONTHS_def)
qed

lemma interest_only_balance: "v_balance (run interest_only_loan) = Fin 100000"
proof -
  have "v_balance (loop interest_only_loan (init interest_only_loan)) = Fin 100000
        \<and> v_currentPayment (loop interest_only_loan (init interest_only_loan)) = Fin 1000"
    by (rule loop_invariant
          [where I = "\<lambda>t. v_balance t = Fin 100000 \<and> v_currentPayment t = Fin 1000"])
       (simp_all add: init_def interest_only_loan_def step_def step_parts rate_def getMonthlyRate_def
          regular_payment_def Let_def round_hundredth round_interest_100000)
  then show ?thesis by (simp add: run_def)
qed

theorem simulate_bounded_witness:
  "js_gt (v_balance (run interest_only_loan)) cent
   \<and> finalMonth (simulate interest_only_loan) = 1200
   \<and> length (schedule (simulate interest_only_loan)) = 1200"
  using simulate_bounded [of interest_only_loan] hundredth_bounds
  by (simp add: interest_only_balance cent_hundredth)

lemma loop_cong:
  assumes "\<And>t. step p t = step q t"
  shows "loop p s = loop q s"
proof (induction "MAX_MONTHS - v_months s" arbitrary: s)
  case 0
  then have "loop p s = s" "loop q s = s" by (simp_all add: loop_stop)
  then show ?case by simp
next
  case (Suc n)
  show ?case
  proof (cases "js_gt (v_balance s) cent \<and> v_months s < MAX_MONTHS")
    case True
    have "n = MAX_MONTHS - v_months (step p s)" using Suc.hyps(2) by simp
    then have "loop p (step p s) = loop q (step p s)" by (rule Suc.hyps(1))
    moreover have "loop p s = loop p (step p s)" "loop q s = loop q (step q s)"
      using True by (simp_all add: loop_continue)
    ultimately show ?thesis using assms by simp
  next
    case False
    then have "loop p s = s" "loop q s = s" by (simp_all add: loop_stop)
    then show ?thesis by simp
  qed
qed

lemma step_no_amortization:
  assumes "amortizationAmount p \<le> 0" and "amortizationAmount q \<le> 0"
    and "annualRate p = annualRate q"
  shows "step p s = step q s"
  using assms by (simp add: step_def step_parts rate_def)

lemma simulate_no_amortization:
  assumes "amortizationAmount p \<le> 0" and "amortizationAmount q \<le> 0"
    and "annualRate p = annualRate q" and "principal p = principal q"
    and "monthlyPayment p = monthlyPayment q"
  shows "simulate p = simulate q"
proof -
  have "loop p (init p) = loop q (init p)"
    by (rule loop_cong) (rule step_no_amortization [OF assms(1-3)])
  moreover have "init p = init q" using assms by (simp add: init_def)
  ultimately show ?thesis by (simp add: simulate_def run_def)
qed

text \<open>
  Claim C6. With \<open>amortizationAmount = 0\<close> the strategies \<open>'term'\<close> and \<open>'quota'\<close> return the
  same result object: the same schedule, totals and number of months.
\<close>

theorem strategies_agree_without_amortization:
  "amortizationAmount p = 0
   \<Longrightarrow> simulate (p\<lparr>strategy := ''term''\<rparr>) = simulate (p\<lparr>strategy := ''quota''\<rparr>)"
  by (rule simulate_no_amortization) simp_all

theorem strategies_agree_without_amortization_witness:
  "amortizationAmount interest_only_loan = 0
   \<and> simulate (interest_only_loan\<lparr>strategy := ''term''\<rparr>)
       = simulate (interest_only_loan\<lparr>strategy := ''quota''\<rparr>)"
  using strategies_agree_without_amortization [of interest_only_loan]
  by (simp add: interest_only_loan_def)

text \<open>
  Claim C10. An extra payment that is zero or negative is never applied: \<open>simulate\<close> returns
  a result, and it is the result of the same parameters with \<open>amortizationAmount = 0\<close>.
\<close>

theorem nonpositive_amortization_is_disabled:
  "amortizationAmount p \<le> 0 \<Longrightarrow> simulate p = simulate (p\<lparr>amortizationAmount := 0\<rparr>)"
  by (rule simulate_no_amortization) simp_all

lemmas eval_simps = simulate_def run_def init_def step_def step_parts rate_def getMonthlyRate_def
  regular_payment_def MAX_MONTHS_def Let_def loop.simps cent_hundredth round_hundredth

theorem nonpositive_amortization_is_disabled_witness:
  "amortizationAmount negative_amortization_loan \<le> 0
   \<and> simulate negative_amortization_loan
       = simulate (negative_amortization_loan\<lparr>amortizationAmount := 0\<rparr>)
   \<and> finalMonth (simulate negative_amortization_loan) = 13
   \<and> totalPaid (simulate negative_amortization_loan) = Fin 1300"
  using nonpositive_amortization_is_disabled [of negative_amortization_loan] hundredth_bounds
  by (simp add: negative_amortization_loan_def eval_simps)

section \<open>A recompute at the boundary of its precondition\<close>

lemmas quota_simps = recompute_def calculateRemainingMonths_def calculateMonthlyPayment_def
  signed_inf_def

lemma Math_log_ge_1:
  assumes "is_double a" and "1 \<le> a"
  obtains l where "Math_log (Fin a) = Fin l" "0 \<le> l" "l \<le> a"
proof -
  have "0 \<le> ln a" using assms(2) by simp
  moreover have "ln a \<le> a" using assms(2) ln_le_minus_one [of a] by simp
  ultimately obtain l where "round_double (ln a) = Fin l" "0 \<le> l" "l \<le> a"
    using round_double_between [OF is_double_0 assms(1), of "ln a"] by blast
  then show ?thesis using that assms(2) by simp
qed

lemma is_double_one_percent_more: "is_double one_percent_more"
  using round_one_percent_more by (rule round_double_idem)


lemma degenerate_run:
  "balance (schedule (simulate degenerate_loan) ! 10) = Fin 100000
   \<and> balance (schedule (simulate degenerate_loan) ! 11) = Fin 95000
   \<and> payment (schedule (simulate degenerate_loan) ! 11) = Fin 6000
   \<and> \<not> js_gt (Fin (monthlyPayment degenerate_loan)) (js_mul (rate degenerate_loan) (Fin 100000))
   \<and> recompute (Fin 95000) (Fin 5000) (rate degenerate_loan) (Fin (monthlyPayment degenerate_loan))
       = NaN
   \<and> payment (schedule (simulate degenerate_loan) ! 12) = NaN
   \<and> balance (schedule (simulate degenerate_loan) ! 12) = NaN
   \<and> totalInterest (simulate degenerate_loan) = Fin 12950
   \<and> v_balance (run degenerate_loan) = NaN
   \<and> totalPaid (simulate degenerate_loan) = NaN
   \<and> finalMonth (simulate degenerate_loan) = 13"
proof -
  obtain l where l: "Math_log (Fin one_percent_more) = Fin l" "0 \<le> l"
    using Math_log_ge_1 [OF is_double_one_percent_more] one_percent_more_bounds(1) by force
  have c: "round_double (hundredth * 100000) = Fin 1000"
    using round_interest_100000 by (simp add: mult.commute)
  have z: "Math_log (Fin 0) = NInf" by simp
  show ?thesis
    using hundredth_bounds one_percent_more_bounds l(2)
    by (simp add: degenerate_loan_def eval_simps quota_simps l(1) c z round_interest_100000
        round_interest_95000 round_one_percent_more del: Math_log.simps)
qed


text \<open>
  Where the argument of the logarithm is computed negative, the remaining term is NaN
  and the recompute keeps the payment. Where the payment equals the interest computed on
  the balance before the extra payment, at a positive rate, the argument is 0, the
  remaining term is \<open>+Infinity\<close> and the recompute returns NaN, whatever the balance.
\<close>

lemma recompute_keeps_payment_at_negative_argument:
  assumes "r \<noteq> 0"
    and "js_gt (Fin 0) (js_sub (Fin 1) (js_div (js_mul (Fin r) (js_add bal extra)) cur))"
  shows "recompute bal extra (Fin r) cur = cur"
proof -
  have "Math_log (js_sub (Fin 1) (js_div (js_mul (Fin r) (js_add bal extra)) cur)) = NaN"
    using assms(2)
    by (cases "js_sub (Fin 1) (js_div (js_mul (Fin r) (js_add bal extra)) cur)") simp_all
  then show ?thesis using assms(1) by (simp add: recompute_def calculateRemainingMonths_def Let_def)
qed

lemma recompute_nan_at_interest:
  assumes "0 < r" and "is_double r" and "r \<le> 2 ^ 1022"
    and "js_add (Fin B) (Fin e) = Fin P" and "js_mul (Fin r) (Fin P) = Fin m" and "m \<noteq> 0"
  shows "recompute (Fin B) (Fin e) (Fin r) (Fin m) = NaN"
proof -
  have "is_double (2 ^ 1023)" by (rule is_double_power2) simp
  moreover have "1 + r \<le> 2 ^ 1023" using assms(3) by simp
  ultimately obtain d where d: "round_double (1 + r) = Fin d" "1 \<le> d" "is_double d"
    using round_double_between [OF is_double_1, of "2 ^ 1023" "1 + r"] assms(1) by auto
  obtain l where l: "Math_log (Fin d) = Fin l" "0 \<le> l"
    using Math_log_ge_1 [OF d(3,2)] by blast
  have z: "Math_log (Fin 0) = NInf" by simp
  have q: "js_div (js_mul (Fin r) (js_add (Fin B) (Fin e))) (Fin m) = Fin 1"
    using assms(6) by (simp add: assms(4,5) del: js_add.simps js_mul.simps)
  have a: "js_add (Fin 1) (Fin r) = Fin d" using d(1) by simp
  have b: "js_div PInf (Fin l) = PInf" using l(2) by simp
  have n: "calculateRemainingMonths (js_add (Fin B) (Fin e)) (Fin r) (Fin m) = PInf"
    using assms(1)
    by (simp add: calculateRemainingMonths_def Let_def q a b z l(1)
        del: Math_log.simps js_add.simps js_mul.simps js_div.simps)
  consider "d = 1" | "1 < d" using d(2) by linarith
  then have "calculateMonthlyPayment (Fin B) (Fin r) PInf = NaN"
  proof cases
    case 1
    then show ?thesis using assms(1) by (simp add: calculateMonthlyPayment_def d(1))
  next
    case 2
    then show ?thesis
      using assms(1) by (simp add: calculateMonthlyPayment_def d(1) signed_inf_def)
  qed
  then show ?thesis using n by (simp add: recompute_def Let_def del: js_add.simps)
qed

text \<open>
  Claim C4, at a parameter set that breaks it. The payment of 1000 equals the interest of a
  month on the balance of 100000, so the balance stays at 100000 for eleven months and the
  precondition \<open>payment > rate * balance\<close> of \<open>calculateRemainingMonths\<close> fails at month 12.
  The logarithm is taken at 0, the remaining term is \<open>+Infinity\<close>, which passes the guard
  \<open>remainingN > 0\<close>, and the new payment is \<open>Infinity / Infinity\<close>. The payment is not
  kept: it is NaN, and month 13 has a NaN payment and a NaN balance, after which the
  loop ends with a NaN total paid. Where the argument of the logarithm is negative the
  guard does hold the payment, as \<open>recompute_keeps_payment_at_negative_argument\<close> shows.
\<close>

theorem degenerate_recompute_yields_nan:
  "strategy degenerate_loan = ''quota''
   \<and> balance (schedule (simulate degenerate_loan) ! 10) = Fin 100000
   \<and> balance (schedule (simulate degenerate_loan) ! 11) = Fin 95000
   \<and> payment (schedule (simulate degenerate_loan) ! 11) = Fin 6000
   \<and> \<not> js_gt (Fin (monthlyPayment degenerate_loan)) (js_mul (rate degenerate_loan) (Fin 100000))
   \<and> recompute (Fin 95000) (Fin 5000) (rate degenerate_loan) (Fin (monthlyPayment degenerate_loan))
       = NaN
   \<and> payment (schedule (simulate degenerate_loan) ! 12) = NaN
   \<and> balance (schedule (simulate degenerate_loan) ! 12) = NaN
   \<and> totalPaid (simulate degenerate_loan) = NaN
   \<and> finalMonth (simulate degenerate_loan) = 13"
  using degenerate_run by (simp add: degenerate_loan_def)

text \<open>
  Claim C2, at the same parameter set, which satisfies the hypotheses of the claim: the
  total paid and the final balance are NaN, so \<open>totalPaid\<close> is not equal to
  \<open>totalInterest + (principal - finalBalance)\<close>, in exact arithmetic or in any other.
\<close>

theorem accounting_identity_fails_on_nan:
  "0 < principal degenerate_loan \<and> 0 < monthlyPayment degenerate_loan
   \<and> 0 \<le> annualRate degenerate_loan \<and> 0 \<le> amortizationAmount degenerate_loan
   \<and> totalInterest (simulate degenerate_loan) = Fin 12950
   \<and> v_balance (run degenerate_loan) = NaN
   \<and> totalPaid (simulate degenerate_loan) = NaN
   \<and> \<not> js_seq (totalPaid (simulate degenerate_loan))
          (js_add (totalInterest (simulate degenerate_loan))
             (js_sub (Fin (principal degenerate_loan)) (v_balance (run degenerate_loan))))"
  using degenerate_run by (simp add: degenerate_loan_def)

section \<open>The comparison\<close>

lemma round_double_overflow:
  assumes "2 ^ 1024 \<le> x"
  shows "round_double x = PInf"
proof -
  have "round_real (of_int 1 * 2 powi 1024) = of_int 1 * 2 powi 1024"
    by (rule round_real_grid) simp_all
  then have "round_real (2 ^ 1024) = 2 ^ 1024" by simp
  then have "2 ^ 1024 \<le> round_real x" using round_real_mono [OF assms] by simp
  then show ?thesis using assms by (simp add: round_double_def signed_inf_def)
qed

lemma is_double_huge: "is_double huge"
  unfolding huge_def by (rule is_double_power2) simp

lemma round_huge [simp]: "round_double huge = Fin huge"
  using is_double_huge by (simp add: is_double_def)

lemma round_huge_twice [simp]: "round_double (2 * huge) = PInf"
  by (rule round_double_overflow) (simp add: huge_def)







end
